theory Spec2Isabelle
  imports Main "HOL-Library.Sublist"
begin

section \<open>Regular expressions with leftmost-first matching\<close>

text \<open>
  The candidate matcher of \<^verbatim>\<open>urlverify.go\<close> is one compiled pattern, \<^verbatim>\<open>urlRegex\<close>, applied
  with \<^verbatim>\<open>FindAllString(text, -1)\<close>. Go's \<^verbatim>\<open>regexp\<close> package returns, at the leftmost
  position where the pattern matches, the match a backtracking search finds first: an
  alternation prefers its left branch, and \<^verbatim>\<open>?\<close>, \<^verbatim>\<open>*\<close> and \<^verbatim>\<open>+\<close> are greedy. The pattern
  uses only character classes, concatenation, alternation, the three greedy operators and
  the bounded repetitions \<^verbatim>\<open>{3}\<close> and \<^verbatim>\<open>{1,3}\<close>, which abbreviate three copies and one copy
  followed by nested options, so that is the syntax modelled. Strings are byte lists; every character the pattern names is ASCII
  and the class \<^verbatim>\<open>[^\s]\<close> accepts every byte of a multi-byte UTF-8 sequence, so matching the
  bytes gives the same substrings as matching code points.
\<close>

datatype re =
    Cls "char \<Rightarrow> bool"
  | Eps
  | Seq re re
  | Alt re re
  | Opt re
  | Star re
  | Plus re

text \<open>
  \<open>backtrack r s\<close> lists, in the order a backtracking search tries them, the remainders of
  \<open>s\<close> after each way \<open>r\<close> can match a prefix of \<open>s\<close>. The greedy iteration is run with
  the length of the string as fuel; an iteration that consumes nothing is not repeated.
\<close>

fun star_backtrack :: "(string \<Rightarrow> string list) \<Rightarrow> nat \<Rightarrow> string \<Rightarrow> string list" where
  "star_backtrack f 0 s = [s]"
| "star_backtrack f (Suc n) s =
     concat (map (\<lambda>s'. if length s' < length s then star_backtrack f n s' else []) (f s)) @ [s]"

primrec backtrack :: "re \<Rightarrow> string \<Rightarrow> string list" where
  "backtrack (Cls p) s = (case s of [] \<Rightarrow> [] | c # cs \<Rightarrow> if p c then [cs] else [])"
| "backtrack Eps s = [s]"
| "backtrack (Seq a b) s = concat (map (backtrack b) (backtrack a s))"
| "backtrack (Alt a b) s = backtrack a s @ backtrack b s"
| "backtrack (Opt a) s = backtrack a s @ [s]"
| "backtrack (Star a) s = star_backtrack (backtrack a) (length s) s"
| "backtrack (Plus a) s =
     concat (map (\<lambda>s'. star_backtrack (backtrack a) (length s') s') (backtrack a s))"

text \<open>The length of the match found first at the start of \<open>s\<close>, if there is one.\<close>

definition match_prefix :: "re \<Rightarrow> string \<Rightarrow> nat option" where
  "match_prefix r s =
     (case backtrack r s of [] \<Rightarrow> None | rest # _ \<Rightarrow> Some (length s - length rest))"

text \<open>
  \<^verbatim>\<open>FindAllString(text, -1)\<close>: successive non-overlapping matches, left to right. After a
  match the search resumes at its end; where nothing matches it moves on by one
  character. Go's treatment of an empty match is not modelled: the model moves on by one
  character there too, and \<^verbatim>\<open>urlRegex\<close> has no empty match (lemma \<open>urlRegex_no_empty_match\<close>).
\<close>

function FindAllString :: "re \<Rightarrow> string \<Rightarrow> string list" where
  "FindAllString r [] = []"
| "FindAllString r (c # cs) =
     (case match_prefix r (c # cs) of
        None \<Rightarrow> FindAllString r cs
      | Some n \<Rightarrow>
          if n = 0 then FindAllString r cs
          else take n (c # cs) # FindAllString r (drop n (c # cs)))"
  by pat_completeness auto
termination
  by (relation "measure (\<lambda>(r, s). length s)") auto

subsection \<open>The pattern \<^verbatim>\<open>urlRegex\<close>\<close>

definition in_range :: "char \<Rightarrow> char \<Rightarrow> char \<Rightarrow> bool" where
  "in_range lo hi c = ((of_char lo :: nat) \<le> of_char c \<and> (of_char c :: nat) \<le> of_char hi)"

text \<open>\<^verbatim>\<open>\s\<close> is \<^verbatim>\<open>[\t\n\f\r ]\<close> and \<^verbatim>\<open>\d\<close> is \<^verbatim>\<open>[0-9]\<close> in Go's syntax.\<close>

definition space :: "char \<Rightarrow> bool" where
  "space c = (c = CHR 0x09 \<or> c = CHR 0x0A \<or> c = CHR 0x0C \<or> c = CHR 0x0D \<or> c = CHR '' '')"

definition digit :: "char \<Rightarrow> bool" where
  "digit c = in_range CHR ''0'' CHR ''9'' c"

definition alnum :: "char \<Rightarrow> bool" where
  "alnum c = (in_range CHR ''a'' CHR ''z'' c \<or> in_range CHR ''A'' CHR ''Z'' c \<or> digit c)"

definition alnum_hyphen :: "char \<Rightarrow> bool" where
  "alnum_hyphen c = (c = CHR ''-'' \<or> alnum c)"

definition hex_colon :: "char \<Rightarrow> bool" where
  "hex_colon c = (digit c \<or> in_range CHR ''a'' CHR ''f'' c \<or> in_range CHR ''A'' CHR ''F'' c
                  \<or> c = CHR '':'')"

definition chr :: "char \<Rightarrow> re" where
  "chr x = Cls (\<lambda>c. c = x)"

fun lit :: "string \<Rightarrow> re" where
  "lit [] = Eps"
| "lit [x] = chr x"
| "lit (x # xs) = Seq (chr x) (lit xs)"

text \<open>\<^verbatim>\<open>https?://[^\s]+\<close>\<close>

definition schemeRe :: re where
  "schemeRe = Seq (lit ''http'') (Seq (Opt (chr CHR ''s''))
                (Seq (lit ''://'') (Plus (Cls (\<lambda>c. \<not> space c)))))"

text \<open>\<^verbatim>\<open>\[[0-9a-fA-F:]+\]\<close>\<close>

definition ipv6Re :: re where
  "ipv6Re = Seq (chr CHR ''['') (Seq (Plus (Cls hex_colon)) (chr CHR '']''))"

text \<open>\<^verbatim>\<open>\d{1,3}\<close>, that is \<^verbatim>\<open>\d(\d(\d)?)?\<close>\<close>

definition digits13 :: re where
  "digits13 = Seq (Cls digit) (Opt (Seq (Cls digit) (Opt (Cls digit))))"

text \<open>\<^verbatim>\<open>\d{1,3}(?:\.\d{1,3}){3}\<close>\<close>

definition ipv4Re :: re where
  "ipv4Re = Seq digits13 (Seq (Seq (chr CHR ''.'') digits13)
              (Seq (Seq (chr CHR ''.'') digits13) (Seq (chr CHR ''.'') digits13)))"

text \<open>\<^verbatim>\<open>[a-zA-Z0-9][-a-zA-Z0-9]*\<close>\<close>

definition labelRe :: re where
  "labelRe = Seq (Cls alnum) (Star (Cls alnum_hyphen))"

text \<open>\<^verbatim>\<open>[a-zA-Z0-9][-a-zA-Z0-9]*(?:\.[a-zA-Z0-9][-a-zA-Z0-9]*)+\<close>\<close>

definition domainRe :: re where
  "domainRe = Seq labelRe (Plus (Seq (chr CHR ''.'') labelRe))"

text \<open>\<^verbatim>\<open>(?::\d+)?(?:/[^\s]*)?\<close>\<close>

definition tailRe :: re where
  "tailRe = Seq (Opt (Seq (chr CHR '':'') (Plus (Cls digit))))
                (Opt (Seq (chr CHR ''/'') (Star (Cls (\<lambda>c. \<not> space c)))))"

definition bareRe :: re where
  "bareRe = Seq (Alt ipv6Re (Alt ipv4Re domainRe)) tailRe"

definition urlRegex :: re where
  "urlRegex = Alt schemeRe bareRe"


section \<open>String helpers of package \<^verbatim>\<open>strings\<close>\<close>

text \<open>\<^verbatim>\<open>strings.TrimRight(s, cutset)\<close> removes every trailing character that is in the cutset.\<close>

definition strings_TrimRight :: "string \<Rightarrow> string \<Rightarrow> string" where
  "strings_TrimRight s cutset = rev (dropWhile (\<lambda>c. c \<in> set cutset) (rev s))"

text \<open>\<^verbatim>\<open>strings.Contains(s, substr)\<close>: \<open>substr\<close> starts at some position of \<open>s\<close>.\<close>

definition strings_Contains :: "string \<Rightarrow> string \<Rightarrow> bool" where
  "strings_Contains s substr = list_ex (prefix substr) (suffixes s)"

text \<open>
  \<^verbatim>\<open>strings.Split(s, sep)\<close> for a separator of one character (the program passes \<^verbatim>\<open>"."\<close>):
  the pieces between the separators, one more than there are separators.
\<close>

fun strings_Split :: "string \<Rightarrow> char \<Rightarrow> string list" where
  "strings_Split [] sep = [] # []"
| "strings_Split (c # cs) sep =
     (if c = sep then [] # strings_Split cs sep
      else (case strings_Split cs sep of
              [] \<Rightarrow> [c] # []
            | p # ps \<Rightarrow> (c # p) # ps))"

section \<open>The library primitives\<close>

text \<open>
  The classifier calls three libraries that are not part of the repository: \<^verbatim>\<open>net/url\<close>,
  \<^verbatim>\<open>net\<close> and \<^verbatim>\<open>golang.org/x/net/publicsuffix\<close>. They are parameters of the model.

  \<open>URL\<close> holds the fields of \<^verbatim>\<open>url.URL\<close> that the program and its tests exercise, and
  \<open>IP\<close> is \<^verbatim>\<open>net.IP\<close>, a byte slice.
\<close>

record URL =
  Scheme :: string
  Host :: string
  Path :: string
  RawQuery :: string

type_synonym IP = "nat list"

text \<open>
  \<^item> \<open>url_Parse\<close> is the package function \<^verbatim>\<open>url.Parse\<close>: the text of the error (\<open>Inl\<close>),
    as \<^verbatim>\<open>err.Error()\<close> prints it, or the URL.
  \<^item> \<open>URL_Parse\<close> is the method \<^verbatim>\<open>(*URL).Parse\<close>, which parses its argument as a
    reference relative to the receiver. The receiver is a pointer and may be \<^verbatim>\<open>nil\<close>
    (\<open>None\<close>); the result \<open>None\<close> stands for the run-time panic of a nil dereference
    inside the method.
  \<^item> \<open>URL_Hostname\<close> is the method \<^verbatim>\<open>(*URL).Hostname\<close>: the host without port and brackets.
  \<^item> \<open>net_ParseIP\<close> is \<^verbatim>\<open>net.ParseIP\<close> (\<open>None\<close> for \<^verbatim>\<open>nil\<close>) and \<open>IP_String\<close> is
    \<^verbatim>\<open>IP.String\<close>.
  \<^item> \<open>PublicSuffix\<close> is \<^verbatim>\<open>publicsuffix.PublicSuffix\<close>: the suffix and whether it is
    managed by ICANN.
\<close>

record library =
  url_Parse :: "string \<Rightarrow> string + URL"
  URL_Parse :: "URL option \<Rightarrow> string \<Rightarrow> (string + URL) option"
  URL_Hostname :: "URL \<Rightarrow> string"
  net_ParseIP :: "string \<Rightarrow> IP option"
  IP_String :: "IP \<Rightarrow> string"
  PublicSuffix :: "string \<Rightarrow> string \<times> bool"

section \<open>The classifier\<close>

datatype URLType = URLTypeInvalid | URLTypeIP | URLTypeICANN | URLTypeNonICANN

text \<open>Fields left out of a composite literal in the source have Go's zero value.\<close>

record ValidationResult =
  Valid :: bool
  Reason :: string
  Type :: URLType
  TLD :: string
  URL :: "URL option"

text \<open>
  \<^verbatim>\<open>parts[len(parts)-1]\<close>: indexing a slice panics when the index is out of range, which
  is the case here exactly when the slice is empty.
\<close>

definition last_index :: "string list \<Rightarrow> string option" where
  "last_index parts = (if parts = [] then None else Some (parts ! (length parts - 1)))"

text \<open>\<^verbatim>\<open>validateDomainName\<close>; \<open>None\<close> is a run-time panic.\<close>

definition validateDomainName :: "library \<Rightarrow> URL \<Rightarrow> ValidationResult option" where
  "validateDomainName L url =
     (let hostname = URL_Hostname L url in
      if hostname = [] then
        Some \<lparr>Valid = False, Reason = ''empty hostname'', Type = URLTypeInvalid,
              TLD = [], URL = None\<rparr>
      else if \<not> strings_Contains hostname ''.'' then
        Some \<lparr>Valid = False, Reason = ''no valid TLD found'', Type = URLTypeInvalid,
              TLD = [], URL = None\<rparr>
      else
        let (eTLD, icann) = PublicSuffix L hostname in
        if eTLD = [] then
          Some \<lparr>Valid = False, Reason = ''no valid TLD found'', Type = URLTypeInvalid,
                TLD = [], URL = None\<rparr>
        else if icann then
          Some \<lparr>Valid = True, Reason = ''valid ICANN domain'', Type = URLTypeICANN,
                TLD = eTLD, URL = Some url\<rparr>
        else
          let rejected = \<lparr>Valid = False, Reason = ''invalid or non-ICANN TLD'',
                          Type = URLTypeInvalid, TLD = eTLD, URL = None\<rparr> in
          if strings_Contains eTLD ''.'' then
            (let parts = strings_Split eTLD CHR ''.'' in
             case last_index parts of
               None \<Rightarrow> None
             | Some actualTLD \<Rightarrow>
                 let testDomain = ''test.'' @ actualTLD;
                     (_, testICANN) = PublicSuffix L testDomain in
                 if testICANN then
                   Some \<lparr>Valid = True, Reason = ''valid domain built on ICANN TLD'',
                         Type = URLTypeNonICANN, TLD = eTLD, URL = Some url\<rparr>
                 else Some rejected)
          else Some rejected)"

text \<open>
  The first lines of \<^verbatim>\<open>ValidateDomain\<close>, up to the point where the local variable \<^verbatim>\<open>url\<close>
  holds a parsed URL. The variable shadows the package of the same name from its
  declaration on, so the retry \<^verbatim>\<open>url.Parse(testURL)\<close> is the method called on the result
  of the first parse, which is \<^verbatim>\<open>nil\<close> when the first parse failed. The outcome is a panic
  (\<open>None\<close>), the error of the retry (\<open>Inl\<close>) or the URL that the rest of the function uses.
\<close>

definition parseCandidate :: "library \<Rightarrow> string \<Rightarrow> (string + URL) option" where
  "parseCandidate L raw =
     (case url_Parse L raw of
        Inl err \<Rightarrow> URL_Parse L None (''http://'' @ raw)
      | Inr url \<Rightarrow>
          if Host url = [] then URL_Parse L (Some url) (''http://'' @ raw)
          else Some (Inr url))"

text \<open>\<^verbatim>\<open>ValidateDomain\<close>; \<open>None\<close> is a run-time panic.\<close>

definition ValidateDomain :: "library \<Rightarrow> string \<Rightarrow> ValidationResult option" where
  "ValidateDomain L raw =
     (case parseCandidate L raw of
        None \<Rightarrow> None
      | Some (Inl err) \<Rightarrow>
          Some \<lparr>Valid = False, Reason = ''parse error: '' @ err, Type = URLTypeInvalid,
                TLD = [], URL = None\<rparr>
      | Some (Inr url) \<Rightarrow>
          (case net_ParseIP L (URL_Hostname L url) of
             Some ip \<Rightarrow>
               Some \<lparr>Valid = True, Reason = ''valid IP address'', Type = URLTypeIP,
                     TLD = IP_String L ip, URL = Some url\<rparr>
           | None \<Rightarrow> validateDomainName L url))"

section \<open>Extraction\<close>

text \<open>
  The loop of \<^verbatim>\<open>ExtractAll\<close> over the matches, with the slice \<^verbatim>\<open>validURLs\<close> as
  accumulator. A panic of the classifier ends the loop.
\<close>

fun ExtractAll_loop :: "library \<Rightarrow> string list \<Rightarrow> string list \<Rightarrow> string list option" where
  "ExtractAll_loop L [] validURLs = Some validURLs"
| "ExtractAll_loop L (m # matches) validURLs =
     (let raw = strings_TrimRight m ''.,)'' in
      case ValidateDomain L raw of
        None \<Rightarrow> None
      | Some result \<Rightarrow>
          if Valid result then ExtractAll_loop L matches (validURLs @ [raw])
          else ExtractAll_loop L matches validURLs)"

definition ExtractAll :: "library \<Rightarrow> string \<Rightarrow> string list option" where
  "ExtractAll L text = ExtractAll_loop L (FindAllString urlRegex text) []"

section \<open>A sample of the libraries' behaviour\<close>

text \<open>
  For evaluating the classifier on concrete inputs, the answers of the Go libraries on the
  calls it makes for a handful of candidates, tabulated. The tables are consulted only at
  their entries; the default answers for other arguments are not claimed to be Go's.
\<close>

definition quoted :: "string \<Rightarrow> string" where
  "quoted s = CHR 0x22 # s @ [CHR 0x22]"

definition plain_path :: "string \<Rightarrow> string + URL" where
  "plain_path p = Inr \<lparr>Scheme = [], Host = [], Path = p, RawQuery = []\<rparr>"

definition http_host :: "string \<Rightarrow> string \<Rightarrow> string + URL" where
  "http_host sch h = Inr \<lparr>Scheme = sch, Host = h, Path = [], RawQuery = []\<rparr>"

definition sample_urls :: "(string \<times> (string + URL)) list" where
  "sample_urls =
     [([], plain_path []),
      (''http://'', http_host ''http'' []),
      (''justtext'', plain_path ''justtext''),
      (''http://justtext'', http_host ''http'' ''justtext''),
      (''example.com'', plain_path ''example.com''),
      (''http://example.com'', http_host ''http'' ''example.com''),
      (''https://example.com'', http_host ''https'' ''example.com''),
      (''HTTP://example.com'', http_host ''http'' ''example.com''),
      (''foo.dyndns.org'', plain_path ''foo.dyndns.org''),
      (''http://foo.dyndns.org'', http_host ''http'' ''foo.dyndns.org''),
      (''test.local'', plain_path ''test.local''),
      (''http://test.local'', http_host ''http'' ''test.local''),
      (''192.168.1.1:8080'',
         Inl (''parse '' @ quoted ''192.168.1.1:8080''
              @ '': first path segment in URL cannot contain colon'')),
      (''http://192.168.1.1:8080'', http_host ''http'' ''192.168.1.1:8080''),
      (''exa mple.com'', plain_path ''exa mple.com''),
      (''http://exa mple.com'',
         Inl (''parse '' @ quoted ''http://exa mple.com''
              @ '': invalid character '' @ quoted '' '' @ '' in host name''))]"

definition sample_url_Parse :: "string \<Rightarrow> string + URL" where
  "sample_url_Parse raw =
     (case map_of sample_urls raw of Some r \<Rightarrow> r | None \<Rightarrow> Inl ''not in the sample'')"

text \<open>
  Every reference in the table that the method is called with starts with a scheme; for
  such a reference the method returns the parsed reference and does not read its receiver.
\<close>

definition sample_URL_Parse :: "URL option \<Rightarrow> string \<Rightarrow> (string + URL) option" where
  "sample_URL_Parse receiver ref = Some (sample_url_Parse ref)"

definition sample_Hostname :: "URL \<Rightarrow> string" where
  "sample_Hostname u = (if Host u = ''192.168.1.1:8080'' then ''192.168.1.1'' else Host u)"

definition sample_ParseIP :: "string \<Rightarrow> IP option" where
  "sample_ParseIP s =
     (if s = ''192.168.1.1''
      then Some [0, 0, 0, 0, 0, 0, 0, 0, 0, 0, 255, 255, 192, 168, 1, 1]
      else None)"

definition sample_IP_String :: "IP \<Rightarrow> string" where
  "sample_IP_String ip =
     (if ip = [0, 0, 0, 0, 0, 0, 0, 0, 0, 0, 255, 255, 192, 168, 1, 1]
      then ''192.168.1.1'' else ''?'')"

definition sample_suffixes :: "(string \<times> string \<times> bool) list" where
  "sample_suffixes =
     [(''example.com'', ''com'', True),
      (''foo.dyndns.org'', ''dyndns.org'', False),
      (''test.org'', ''org'', True),
      (''test.local'', ''local'', False)]"

definition sample_PublicSuffix :: "string \<Rightarrow> string \<times> bool" where
  "sample_PublicSuffix h =
     (case map_of sample_suffixes h of Some r \<Rightarrow> r | None \<Rightarrow> ([], False))"

definition sampleLibrary :: library where
  "sampleLibrary =
     \<lparr>url_Parse = sample_url_Parse, URL_Parse = sample_URL_Parse,
      URL_Hostname = sample_Hostname, net_ParseIP = sample_ParseIP,
      IP_String = sample_IP_String, PublicSuffix = sample_PublicSuffix\<rparr>"

section \<open>Notions of the specification\<close>

text \<open>The rightmost label of a dotted name: what follows its last dot.\<close>

definition rightmost_label :: "string \<Rightarrow> string" where
  "rightmost_label s = rev (takeWhile (\<lambda>c. c \<noteq> CHR ''.'') (rev s))"

text \<open>
  The candidates of a text: the matches of the pattern, each with its trailing
  punctuation removed as \<^verbatim>\<open>ExtractAll\<close> does before it classifies.
\<close>

definition candidates :: "string \<Rightarrow> string list" where
  "candidates text = map (\<lambda>m. strings_TrimRight m ''.,)'') (FindAllString urlRegex text)"

text \<open>A candidate is accepted when the classifier returns a result that is valid.\<close>

definition accepted :: "library \<Rightarrow> string \<Rightarrow> bool" where
  "accepted L c = (case ValidateDomain L c of None \<Rightarrow> False | Some result \<Rightarrow> Valid result)"

text \<open>
  \<open>in_order xs t\<close>: the strings \<open>xs\<close> occur in \<open>t\<close> one after the other, each starting
  at or after the end of the one before.
\<close>

fun in_order :: "string list \<Rightarrow> string \<Rightarrow> bool" where
  "in_order [] t = True"
| "in_order (x # xs) t =
     (\<exists>n \<in> {0..length t}. prefix x (drop n t) \<and> in_order xs (drop (n + length x) t))"

text \<open>The set of strings a pattern matches as a whole.\<close>

inductive_set star :: "string set \<Rightarrow> string set" for A :: "string set" where
  star_empty: "[] \<in> star A"
| star_more: "u \<in> A \<Longrightarrow> v \<in> star A \<Longrightarrow> u @ v \<in> star A"

primrec lang :: "re \<Rightarrow> string set" where
  "lang (Cls p) = {[c] | c. p c}"
| "lang Eps = {[]}"
| "lang (Seq a b) = {u @ v | u v. u \<in> lang a \<and> v \<in> lang b}"
| "lang (Alt a b) = lang a \<union> lang b"
| "lang (Opt a) = insert [] (lang a)"
| "lang (Star a) = star (lang a)"
| "lang (Plus a) = {u @ v | u v. u \<in> lang a \<and> v \<in> star (lang a)}"

text \<open>
  The host part of a bare-host candidate is what precedes its port or path. A label as
  the pattern has it starts with an ASCII letter or digit and continues with ASCII
  letters, digits and hyphens. A label as the specification describes it also ends with
  a letter or digit, where a byte outside ASCII counts as part of a Unicode letter.
\<close>

definition host_part :: "string \<Rightarrow> string" where
  "host_part m = takeWhile (\<lambda>c. c \<noteq> CHR '':'' \<and> c \<noteq> CHR ''/'') m"

definition label :: "string \<Rightarrow> bool" where
  "label l = (l \<noteq> [] \<and> alnum (hd l) \<and> list_all alnum_hyphen l)"

definition spec_alnum :: "char \<Rightarrow> bool" where
  "spec_alnum c = (alnum c \<or> (128 :: nat) \<le> of_char c)"

definition spec_label :: "string \<Rightarrow> bool" where
  "spec_label l = (l \<noteq> [] \<and> spec_alnum (hd l) \<and> spec_alnum (last l)
                   \<and> list_all (\<lambda>c. spec_alnum c \<or> c = CHR ''-'') l)"

definition dotted :: "(string \<Rightarrow> bool) \<Rightarrow> string \<Rightarrow> bool" where
  "dotted P h = (let ls = strings_Split h CHR ''.'' in 2 \<le> length ls \<and> list_all P ls)"

section \<open>Properties\<close>

subsection \<open>Splitting at dots\<close>

lemma strings_Split_nonempty: "strings_Split s sep \<noteq> []"
  by (induction s) (auto split: list.splits)

lemma strings_Split_single:
  "sep \<notin> set s \<Longrightarrow> strings_Split s sep = [s]"
  by (induction s) (auto split: list.splits)

lemma strings_Split_length:
  "sep \<in> set s \<Longrightarrow> 2 \<le> length (strings_Split s sep)"
proof (induction s)
  case Nil
  then show ?case by simp
next
  case (Cons c cs)
  show ?case
  proof (cases "c = sep")
    case True
    have "strings_Split cs sep \<noteq> []" by (rule strings_Split_nonempty)
    then have "1 \<le> length (strings_Split cs sep)" by (cases "strings_Split cs sep") auto
    with True show ?thesis by simp
  next
    case False
    with Cons.prems have "sep \<in> set cs" by simp
    then have "2 \<le> length (strings_Split cs sep)" by (rule Cons.IH)
    with False show ?thesis by (auto split: list.splits)
  qed
qed

lemma last_strings_Split:
  "last (strings_Split s sep) = rev (takeWhile (\<lambda>c. c \<noteq> sep) (rev s))"
proof (induction s)
  case Nil
  then show ?case by simp
next
  case (Cons c cs)
  show ?case
  proof (cases "c = sep")
    case True
    then show ?thesis
      using Cons.IH strings_Split_nonempty [of cs sep]
      by (simp add: takeWhile_append)
  next
    case False
    note neq = this
    show ?thesis
    proof (cases "sep \<in> set cs")
      case True
      then have len: "2 \<le> length (strings_Split cs sep)" by (rule strings_Split_length)
      then obtain p q ps where sp: "strings_Split cs sep = p # q # ps"
        by (cases "strings_Split cs sep"; cases "tl (strings_Split cs sep)") auto
      have "\<exists>x \<in> set (rev cs). \<not> x \<noteq> sep" using True by auto
      then have "takeWhile (\<lambda>c. c \<noteq> sep) (rev cs @ [c]) = takeWhile (\<lambda>c. c \<noteq> sep) (rev cs)"
        by (simp add: takeWhile_append1)
      with neq sp Cons.IH show ?thesis by simp
    next
      case False
      with neq have sp: "strings_Split (c # cs) sep = [c # cs]"
        by (simp add: strings_Split_single)
      have tw: "takeWhile (\<lambda>c. c \<noteq> sep) (rev (c # cs)) = rev (c # cs)"
        using False neq by (intro takeWhile_eq_all_conv [THEN iffD2]) auto
      show ?thesis unfolding sp tw by simp
    qed
  qed
qed

lemma last_index_strings_Split:
  "last_index (strings_Split s CHR ''.'') = Some (rightmost_label s)"
proof -
  have ne: "strings_Split s CHR ''.'' \<noteq> []" by (rule strings_Split_nonempty)
  then have "strings_Split s CHR ''.'' ! (length (strings_Split s CHR ''.'') - 1)
               = last (strings_Split s CHR ''.'')"
    by (simp add: last_conv_nth)
  with ne show ?thesis
    by (simp add: last_index_def rightmost_label_def last_strings_Split)
qed

lemma validateDomainName_returns: "\<exists>r. validateDomainName L u = Some r"
  by (auto simp: validateDomainName_def Let_def last_index_strings_Split split: prod.splits)

lemma strings_Contains_char: "strings_Contains s [c] \<longleftrightarrow> c \<in> set s"
proof -
  have "list_ex (prefix [c]) (suffixes s) \<longleftrightarrow> c \<in> set s"
  proof (induction s)
    case Nil
    then show ?case by simp
  next
    case (Cons a s)
    then show ?case by (auto simp: list_ex_iff)
  qed
  then show ?thesis by (simp add: strings_Contains_def)
qed

subsection \<open>The classifier\<close>

text \<open>
  C1. A candidate that parses, whose host name is not an IP literal, is not empty and has a
  dot (so that the suffix lookup is reached), and for which the lookup returns a non-empty
  suffix that is not ICANN's: when the suffix has a dot and the lookup of the probe host
  \<^verbatim>\<open>test.\<close> followed by the suffix's rightmost label reports ICANN, the verdict is valid,
  \<open>URLTypeNonICANN\<close>, "valid domain built on ICANN TLD"; otherwise it is invalid,
  \<open>URLTypeInvalid\<close>, "invalid or non-ICANN TLD". \<open>TLD\<close> is the suffix in both cases.
\<close>

theorem nonICANN_suffix_verdict:
  assumes "parseCandidate L raw = Some (Inr url)"
    and "net_ParseIP L (URL_Hostname L url) = None"
    and "URL_Hostname L url \<noteq> []"
    and "CHR ''.'' \<in> set (URL_Hostname L url)"
    and "PublicSuffix L (URL_Hostname L url) = (eTLD, False)"
    and "eTLD \<noteq> []"
  shows "ValidateDomain L raw =
           Some (if CHR ''.'' \<in> set eTLD
                    \<and> snd (PublicSuffix L (''test.'' @ rightmost_label eTLD))
                 then \<lparr>Valid = True, Reason = ''valid domain built on ICANN TLD'',
                       Type = URLTypeNonICANN, TLD = eTLD, URL = Some url\<rparr>
                 else \<lparr>Valid = False, Reason = ''invalid or non-ICANN TLD'',
                       Type = URLTypeInvalid, TLD = eTLD, URL = None\<rparr>)"
  using assms
  by (simp add: ValidateDomain_def validateDomainName_def Let_def last_index_strings_Split
        strings_Contains_char split: prod.splits)

theorem nonICANN_suffix_verdict_witness:
  "PublicSuffix sampleLibrary ''foo.dyndns.org'' = (''dyndns.org'', False)
   \<and> PublicSuffix sampleLibrary ''test.org'' = (''org'', True)
   \<and> ValidateDomain sampleLibrary ''foo.dyndns.org''
     = Some \<lparr>Valid = True, Reason = ''valid domain built on ICANN TLD'',
              Type = URLTypeNonICANN, TLD = ''dyndns.org'',
              URL = Some \<lparr>Scheme = ''http'', Host = ''foo.dyndns.org'', Path = [],
                          RawQuery = []\<rparr>\<rparr>
   \<and> PublicSuffix sampleLibrary ''test.local'' = (''local'', False)
   \<and> ValidateDomain sampleLibrary ''test.local''
     = Some \<lparr>Valid = False, Reason = ''invalid or non-ICANN TLD'', Type = URLTypeInvalid,
              TLD = ''local'', URL = None\<rparr>"
proof -
  let ?u = "\<lparr>Scheme = ''http'', Host = ''foo.dyndns.org'', Path = [], RawQuery = []\<rparr>"
  have p: "parseCandidate sampleLibrary ''foo.dyndns.org'' = Some (Inr ?u)" by code_simp
  have h: "URL_Hostname sampleLibrary ?u = ''foo.dyndns.org''" by code_simp
  have ip: "net_ParseIP sampleLibrary (URL_Hostname sampleLibrary ?u) = None" by code_simp
  have ne: "URL_Hostname sampleLibrary ?u \<noteq> []" by code_simp
  have dot: "CHR ''.'' \<in> set (URL_Hostname sampleLibrary ?u)" unfolding h by simp
  have ps: "PublicSuffix sampleLibrary (URL_Hostname sampleLibrary ?u) = (''dyndns.org'', False)"
    by code_simp
  have ps': "PublicSuffix sampleLibrary ''foo.dyndns.org'' = (''dyndns.org'', False)"
    by code_simp
  have probe: "PublicSuffix sampleLibrary ''test.org'' = (''org'', True)" by code_simp
  have rl: "rightmost_label ''dyndns.org'' = ''org''" by code_simp
  let ?v = "\<lparr>Scheme = ''http'', Host = ''test.local'', Path = [], RawQuery = []\<rparr>"
  have p2: "parseCandidate sampleLibrary ''test.local'' = Some (Inr ?v)" by code_simp
  have h2: "URL_Hostname sampleLibrary ?v = ''test.local''" by code_simp
  have ip2: "net_ParseIP sampleLibrary (URL_Hostname sampleLibrary ?v) = None" by code_simp
  have ne2: "URL_Hostname sampleLibrary ?v \<noteq> []" by code_simp
  have dot2: "CHR ''.'' \<in> set (URL_Hostname sampleLibrary ?v)" unfolding h2 by simp
  have ps2: "PublicSuffix sampleLibrary (URL_Hostname sampleLibrary ?v) = (''local'', False)"
    by code_simp
  have ps2': "PublicSuffix sampleLibrary ''test.local'' = (''local'', False)" by code_simp
  have accept: "ValidateDomain sampleLibrary ''foo.dyndns.org''
     = Some \<lparr>Valid = True, Reason = ''valid domain built on ICANN TLD'',
              Type = URLTypeNonICANN, TLD = ''dyndns.org'', URL = Some ?u\<rparr>"
    using nonICANN_suffix_verdict [OF p ip ne dot ps] probe rl by simp
  have reject: "ValidateDomain sampleLibrary ''test.local''
     = Some \<lparr>Valid = False, Reason = ''invalid or non-ICANN TLD'', Type = URLTypeInvalid,
              TLD = ''local'', URL = None\<rparr>"
    using nonICANN_suffix_verdict [OF p2 ip2 ne2 dot2 ps2] by simp
  from accept reject ps' probe ps2' show ?thesis by simp
qed

text \<open>
  C3. A candidate whose parsed host name (the host without brackets and port, whatever
  port or path follows it in the candidate) is an IP literal is valid, of type
  \<open>URLTypeIP\<close>, with reason "valid IP address", with the textual form of the IP as \<open>TLD\<close>
  and with the parsed URL. The suffix list has no part in the result: replacing the lookup
  function by any other leaves it unchanged.
\<close>

theorem IP_literal_verdict:
  assumes "parseCandidate L raw = Some (Inr url)"
    and "net_ParseIP L (URL_Hostname L url) = Some ip"
  shows "ValidateDomain L raw =
           Some \<lparr>Valid = True, Reason = ''valid IP address'', Type = URLTypeIP,
                 TLD = IP_String L ip, URL = Some url\<rparr>
         \<and> ValidateDomain (L\<lparr>PublicSuffix := lookup\<rparr>) raw = ValidateDomain L raw"
proof -
  have "parseCandidate (L\<lparr>PublicSuffix := lookup\<rparr>) raw = parseCandidate L raw"
    by (simp add: parseCandidate_def split: sum.splits)
  with assms show ?thesis by (simp add: ValidateDomain_def)
qed

theorem IP_literal_verdict_witness:
  "parseCandidate sampleLibrary ''192.168.1.1:8080''
     = Some (Inr \<lparr>Scheme = ''http'', Host = ''192.168.1.1:8080'', Path = [], RawQuery = []\<rparr>)
   \<and> ValidateDomain sampleLibrary ''192.168.1.1:8080''
     = Some \<lparr>Valid = True, Reason = ''valid IP address'', Type = URLTypeIP,
              TLD = ''192.168.1.1'',
              URL = Some \<lparr>Scheme = ''http'', Host = ''192.168.1.1:8080'', Path = [],
                          RawQuery = []\<rparr>\<rparr>"
proof -
  let ?u = "\<lparr>Scheme = ''http'', Host = ''192.168.1.1:8080'', Path = [], RawQuery = []\<rparr>"
  let ?ip = "[0, 0, 0, 0, 0, 0, 0, 0, 0, 0, 255, 255, 192, 168, 1, 1] :: IP"
  have p: "parseCandidate sampleLibrary ''192.168.1.1:8080'' = Some (Inr ?u)" by code_simp
  have ip: "net_ParseIP sampleLibrary (URL_Hostname sampleLibrary ?u) = Some ?ip" by code_simp
  have s: "IP_String sampleLibrary ?ip = ''192.168.1.1''" by code_simp
  from IP_literal_verdict [OF p ip] p s show ?thesis by simp
qed

text \<open>
  C9. In every result of \<^verbatim>\<open>ValidateDomain\<close> the type is \<open>URLTypeInvalid\<close> exactly when
  \<open>Valid\<close> is false, and a valid result has one of the three other types.
\<close>

theorem Invalid_iff_not_Valid:
  assumes "ValidateDomain L raw = Some result"
  shows "(Type result = URLTypeInvalid \<longleftrightarrow> \<not> Valid result)
         \<and> (Valid result \<longrightarrow> Type result \<in> {URLTypeIP, URLTypeICANN, URLTypeNonICANN})"
  using assms
  by (auto simp: ValidateDomain_def validateDomainName_def Let_def
        split: option.splits sum.splits prod.splits if_splits)

theorem Invalid_iff_not_Valid_witness:
  "ValidateDomain sampleLibrary ''test.local''
     = Some \<lparr>Valid = False, Reason = ''invalid or non-ICANN TLD'', Type = URLTypeInvalid,
              TLD = ''local'', URL = None\<rparr>
   \<and> (Type \<lparr>Valid = False, Reason = ''invalid or non-ICANN TLD'', Type = URLTypeInvalid,
              TLD = ''local'', URL = None\<rparr> = URLTypeInvalid
        \<longleftrightarrow> \<not> Valid \<lparr>Valid = False, Reason = ''invalid or non-ICANN TLD'',
                        Type = URLTypeInvalid, TLD = ''local'', URL = None\<rparr>)"
proof -
  have v: "ValidateDomain sampleLibrary ''test.local''
     = Some \<lparr>Valid = False, Reason = ''invalid or non-ICANN TLD'', Type = URLTypeInvalid,
              TLD = ''local'', URL = None\<rparr>" by code_simp
  from Invalid_iff_not_Valid [OF v] v show ?thesis by blast
qed

text \<open>
  C10. The empty string. \<^verbatim>\<open>url.Parse("")\<close> succeeds with an empty host, so the candidate is
  parsed again as \<^verbatim>\<open>"http://"\<close>; that succeeds too, with an empty host name, which is not
  an IP literal. The result is the rejection "empty hostname", of type \<open>URLTypeInvalid\<close>,
  with empty \<open>TLD\<close> and no URL, and not a parse error.
\<close>

theorem empty_string_verdict:
  assumes "url_Parse L [] = Inr u0" and "Host u0 = []"
    and "URL_Parse L (Some u0) ''http://'' = Some (Inr u1)"
    and "URL_Hostname L u1 = []"
    and "net_ParseIP L [] = None"
  shows "ValidateDomain L [] =
           Some \<lparr>Valid = False, Reason = ''empty hostname'', Type = URLTypeInvalid,
                 TLD = [], URL = None\<rparr>"
  using assms by (simp add: ValidateDomain_def parseCandidate_def validateDomainName_def)

theorem empty_string_verdict_witness:
  "url_Parse sampleLibrary [] = Inr \<lparr>Scheme = [], Host = [], Path = [], RawQuery = []\<rparr>
   \<and> URL_Parse sampleLibrary (Some \<lparr>Scheme = [], Host = [], Path = [], RawQuery = []\<rparr>)
        ''http://'' = Some (Inr \<lparr>Scheme = ''http'', Host = [], Path = [], RawQuery = []\<rparr>)
   \<and> ValidateDomain sampleLibrary [] =
           Some \<lparr>Valid = False, Reason = ''empty hostname'', Type = URLTypeInvalid,
                 TLD = [], URL = None\<rparr>"
proof -
  let ?u0 = "\<lparr>Scheme = [], Host = [], Path = [], RawQuery = []\<rparr>"
  let ?u1 = "\<lparr>Scheme = ''http'', Host = [], Path = [], RawQuery = []\<rparr>"
  have a: "url_Parse sampleLibrary [] = Inr ?u0" by code_simp
  have b: "Host ?u0 = []" by simp
  have c: "URL_Parse sampleLibrary (Some ?u0) ''http://'' = Some (Inr ?u1)" by code_simp
  have d: "URL_Hostname sampleLibrary ?u1 = []" by code_simp
  have e: "net_ParseIP sampleLibrary [] = None" by code_simp
  from empty_string_verdict [OF a b c d e] a c show ?thesis by simp
qed

text \<open>
  C4. \<^verbatim>\<open>ValidateDomain\<close> parses the candidate; when that fails or gives an empty host it
  parses \<^verbatim>\<open>"http://"\<close> followed by the candidate. When this second parse is made and
  fails, the result is invalid, of type \<open>URLTypeInvalid\<close>, and its reason is
  "parse error: " followed by the parser's message; in every other case the reason does
  not start with "parse error: ". A result is returned for every input, given that the
  retry, which is a method call on a pointer that may be nil, does not dereference its
  receiver for a reference that starts with a scheme (in \<^verbatim>\<open>net/url\<close> it does not).
\<close>

theorem parse_error_exactly_when_retry_fails:
  assumes "\<forall>receiver. URL_Parse L receiver (''http://'' @ raw) \<noteq> None"
  shows "\<exists>result. ValidateDomain L raw = Some result \<and>
           (let retried = (case url_Parse L raw of Inl err \<Rightarrow> True | Inr url \<Rightarrow> Host url = []);
                receiver = (case url_Parse L raw of Inl err \<Rightarrow> None | Inr url \<Rightarrow> Some url);
                second = URL_Parse L receiver (''http://'' @ raw)
            in if retried \<and> (\<exists>err. second = Some (Inl err))
               then \<exists>err. second = Some (Inl err) \<and>
                      result = \<lparr>Valid = False, Reason = ''parse error: '' @ err,
                                Type = URLTypeInvalid, TLD = [], URL = None\<rparr>
               else \<not> prefix ''parse error: '' (Reason result))"
proof -
  let ?first = "url_Parse L raw"
  let ?retried = "case ?first of Inl err \<Rightarrow> True | Inr url \<Rightarrow> Host url = []"
  let ?receiver = "case ?first of Inl err \<Rightarrow> None | Inr url \<Rightarrow> Some url"
  let ?second = "URL_Parse L ?receiver (''http://'' @ raw)"
  have pc: "parseCandidate L raw = (if ?retried then ?second else Some ?first)"
    by (simp add: parseCandidate_def split: sum.splits)
  from assms obtain s where s: "?second = Some s" by blast
  show ?thesis
  proof (cases "?retried \<and> (\<exists>err. ?second = Some (Inl err))")
    case True
    then obtain err where e: "?second = Some (Inl err)" by blast
    with True pc have "parseCandidate L raw = Some (Inl err)" by simp
    then have "ValidateDomain L raw =
        Some \<lparr>Valid = False, Reason = ''parse error: '' @ err,
              Type = URLTypeInvalid, TLD = [], URL = None\<rparr>"
      by (simp add: ValidateDomain_def)
    with True e show ?thesis by (simp add: Let_def)
  next
    case False
    have "\<exists>url. parseCandidate L raw = Some (Inr url)"
    proof (cases ?retried)
      case True
      with False s have "\<exists>url. ?second = Some (Inr url)" by (cases s) auto
      with True pc show ?thesis by simp
    next
      case False
      then show ?thesis using pc by (auto split: sum.splits)
    qed
    then obtain url where u: "parseCandidate L raw = Some (Inr url)" ..
    obtain r where r: "validateDomainName L url = Some r"
      using validateDomainName_returns by blast
    then have nr: "\<not> prefix ''parse error: '' (Reason r)"
      by (auto simp: validateDomainName_def Let_def last_index_strings_Split
            split: prod.splits if_splits)
    have "\<exists>result. ValidateDomain L raw = Some result
            \<and> \<not> prefix ''parse error: '' (Reason result)"
      using u r nr by (auto simp: ValidateDomain_def split: option.splits)
    with False show ?thesis by (auto simp: Let_def)
  qed
qed

theorem parse_error_exactly_when_retry_fails_witness:
  "(\<forall>receiver. URL_Parse sampleLibrary receiver (''http://'' @ ''exa mple.com'') \<noteq> None)
   \<and> url_Parse sampleLibrary ''exa mple.com''
       = Inr \<lparr>Scheme = [], Host = [], Path = ''exa mple.com'', RawQuery = []\<rparr>
   \<and> ValidateDomain sampleLibrary ''exa mple.com''
       = Some \<lparr>Valid = False,
               Reason = ''parse error: parse '' @ quoted ''http://exa mple.com''
                        @ '': invalid character '' @ quoted '' '' @ '' in host name'',
               Type = URLTypeInvalid, TLD = [], URL = None\<rparr>"
proof -
  let ?u = "\<lparr>Scheme = [], Host = [], Path = ''exa mple.com'', RawQuery = []\<rparr>"
  let ?e = "''parse '' @ quoted ''http://exa mple.com''
              @ '': invalid character '' @ quoted '' '' @ '' in host name''"
  have h: "\<forall>receiver. URL_Parse sampleLibrary receiver (''http://'' @ ''exa mple.com'') \<noteq> None"
    by (simp add: sampleLibrary_def sample_URL_Parse_def)
  have a: "url_Parse sampleLibrary ''exa mple.com'' = Inr ?u" by code_simp
  have b: "URL_Parse sampleLibrary (Some ?u) (''http://'' @ ''exa mple.com'') = Some (Inl ?e)"
    by code_simp
  from parse_error_exactly_when_retry_fails [OF h] h a b show ?thesis
    by (auto simp: Let_def)
qed

text \<open>
  C7, as stated, does not hold: the candidate \<^verbatim>\<open>justtext\<close> is parsed (as
  \<^verbatim>\<open>http://justtext\<close>), and the result "no valid TLD found" has no URL.
\<close>

theorem URL_absent_counterexample:
  "parseCandidate sampleLibrary ''justtext''
     = Some (Inr \<lparr>Scheme = ''http'', Host = ''justtext'', Path = [], RawQuery = []\<rparr>)
   \<and> ValidateDomain sampleLibrary ''justtext''
     = Some \<lparr>Valid = False, Reason = ''no valid TLD found'', Type = URLTypeInvalid,
              TLD = [], URL = None\<rparr>"
  by code_simp

text \<open>
  C7, amended. The URL field is set exactly when the verdict is valid, and then it holds
  the parsed form of the candidate. Every invalid result leaves it unset: the parse error,
  and also "empty hostname", "no valid TLD found" and "invalid or non-ICANN TLD", where
  the parse succeeded.
\<close>

theorem URL_present_iff_Valid:
  assumes "ValidateDomain L raw = Some result"
  shows "(URL result \<noteq> None \<longleftrightarrow> Valid result)
         \<and> (\<forall>url. URL result = Some url \<longrightarrow> parseCandidate L raw = Some (Inr url))"
  using assms
  by (auto simp: ValidateDomain_def validateDomainName_def Let_def
        split: option.splits sum.splits prod.splits if_splits)

theorem URL_present_iff_Valid_witness:
  "ValidateDomain sampleLibrary ''example.com''
     = Some \<lparr>Valid = True, Reason = ''valid ICANN domain'', Type = URLTypeICANN, TLD = ''com'',
              URL = Some \<lparr>Scheme = ''http'', Host = ''example.com'', Path = [],
                          RawQuery = []\<rparr>\<rparr>
   \<and> parseCandidate sampleLibrary ''example.com''
     = Some (Inr \<lparr>Scheme = ''http'', Host = ''example.com'', Path = [], RawQuery = []\<rparr>)"
proof -
  have v: "ValidateDomain sampleLibrary ''example.com''
     = Some \<lparr>Valid = True, Reason = ''valid ICANN domain'', Type = URLTypeICANN, TLD = ''com'',
              URL = Some \<lparr>Scheme = ''http'', Host = ''example.com'', Path = [],
                          RawQuery = []\<rparr>\<rparr>" by code_simp
  from URL_present_iff_Valid [OF v] v show ?thesis by simp
qed

subsection \<open>Extraction\<close>

lemma in_order_Cons_iff:
  "in_order (x # xs) t \<longleftrightarrow> (\<exists>ps ss. t = ps @ x @ ss \<and> in_order xs ss)"
proof
  assume "in_order (x # xs) t"
  then obtain n where n: "n \<le> length t" "prefix x (drop n t)"
    "in_order xs (drop (n + length x) t)" by auto
  from n(2) obtain r where r: "drop n t = x @ r" by (auto simp: prefix_def)
  have "t = take n t @ x @ r" using r by (metis append_take_drop_id)
  moreover have "drop (n + length x) t = r"
    using r by (metis add.commute append_eq_conv_conj drop_drop)
  ultimately show "\<exists>ps ss. t = ps @ x @ ss \<and> in_order xs ss" using n(3) by metis
next
  assume "\<exists>ps ss. t = ps @ x @ ss \<and> in_order xs ss"
  then obtain ps ss where t: "t = ps @ x @ ss" and ss: "in_order xs ss" by blast
  have "length ps \<le> length t" using t by simp
  moreover have "prefix x (drop (length ps) t)" using t by simp
  moreover have "drop (length ps + length x) t = ss" using t by simp
  ultimately show "in_order (x # xs) t" using ss by auto
qed

declare in_order.simps(2) [simp del]

lemma in_order_shift: "in_order xs t \<Longrightarrow> in_order xs (p @ t)"
proof (cases xs)
  case Nil
  then show ?thesis by simp
next
  case (Cons x xs')
  assume "in_order xs t"
  with Cons have "in_order (x # xs') t" by simp
  then obtain ps ss where "t = ps @ x @ ss" "in_order xs' ss"
    unfolding in_order_Cons_iff by blast
  then have "p @ t = (p @ ps) @ x @ ss \<and> in_order xs' ss" by simp
  then show ?thesis unfolding Cons in_order_Cons_iff by blast
qed

lemma in_order_sublist: "in_order xs t \<Longrightarrow> x \<in> set xs \<Longrightarrow> sublist x t"
proof (induction xs arbitrary: t)
  case Nil
  then show ?case by simp
next
  case (Cons y ys)
  from Cons.prems(1) obtain ps ss where t: "t = ps @ y @ ss" and ss: "in_order ys ss"
    unfolding in_order_Cons_iff by blast
  show ?case
  proof (cases "x = y")
    case True
    with t show ?thesis by (auto simp: sublist_def)
  next
    case False
    with Cons.prems(2) have "x \<in> set ys" by simp
    with ss have "sublist x ss" by (rule Cons.IH)
    then obtain a b where "ss = a @ x @ b" by (auto simp: sublist_def)
    with t have "t = (ps @ y @ a) @ x @ b" by simp
    then show ?thesis unfolding sublist_def by blast
  qed
qed

lemma in_order_map_prefix:
  "in_order ms t \<Longrightarrow> (\<And>m. prefix (f m) m) \<Longrightarrow> in_order (map f ms) t"
proof (induction ms arbitrary: t)
  case Nil
  then show ?case by simp
next
  case (Cons m ms)
  from Cons.prems(1) obtain ps ss where t: "t = ps @ m @ ss" and ss: "in_order ms ss"
    unfolding in_order_Cons_iff by blast
  from Cons.prems(2) obtain r where m: "m = f m @ r" by (auto simp: prefix_def)
  have "in_order (map f ms) ss" using ss Cons.prems(2) by (rule Cons.IH)
  then have "in_order (map f ms) (r @ ss)" by (rule in_order_shift)
  moreover have "t = ps @ f m @ (r @ ss)" using t m by (metis append.assoc)
  ultimately show ?case unfolding list.map in_order_Cons_iff by blast
qed

lemma in_order_filter: "in_order xs t \<Longrightarrow> in_order (filter P xs) t"
proof (induction xs arbitrary: t)
  case Nil
  then show ?case by simp
next
  case (Cons x xs)
  from Cons.prems obtain ps ss where t: "t = ps @ x @ ss" and ss: "in_order xs ss"
    unfolding in_order_Cons_iff by blast
  have f: "in_order (filter P xs) ss" using ss by (rule Cons.IH)
  show ?case
  proof (cases "P x")
    case True
    have "in_order (x # filter P xs) t" unfolding in_order_Cons_iff using t f by blast
    with True show ?thesis by simp
  next
    case False
    have "in_order (filter P xs) ((ps @ x) @ ss)" using f by (rule in_order_shift)
    with False t show ?thesis by simp
  qed
qed

lemma match_prefix_le: "match_prefix r s = Some n \<Longrightarrow> n \<le> length s"
  by (auto simp: match_prefix_def split: list.splits)

lemma in_order_FindAllString: "in_order (FindAllString r s) s"
proof (induction r s rule: FindAllString.induct)
  case (1 r)
  then show ?case by simp
next
  case (2 r c cs)
  show ?case
  proof (cases "match_prefix r (c # cs)")
    case None
    with 2 have "in_order (FindAllString r cs) cs" by simp
    then have "in_order (FindAllString r cs) ([c] @ cs)" by (rule in_order_shift)
    with None show ?thesis by simp
  next
    case (Some n)
    show ?thesis
    proof (cases "n = 0")
      case True
      with 2 Some have "in_order (FindAllString r cs) cs" by simp
      then have "in_order (FindAllString r cs) ([c] @ cs)" by (rule in_order_shift)
      with Some True show ?thesis by simp
    next
      case False
      with 2 Some have ih: "in_order (FindAllString r (drop n (c # cs))) (drop n (c # cs))"
        by simp
      have "c # cs = [] @ take n (c # cs) @ drop n (c # cs)" by simp
      with ih have "in_order (take n (c # cs) # FindAllString r (drop n (c # cs))) (c # cs)"
        unfolding in_order_Cons_iff by blast
      with Some False show ?thesis by simp
    qed
  qed
qed

lemma strings_TrimRight_prefix: "prefix (strings_TrimRight m cutset) m"
proof -
  have "suffix (dropWhile (\<lambda>c. c \<in> set cutset) (rev m)) (rev m)"
    by (rule suffix_dropWhile)
  then show ?thesis
    unfolding strings_TrimRight_def by (metis rev_rev_ident suffix_to_prefix)
qed

lemma ExtractAll_loop_filter:
  "ExtractAll_loop L ms acc = Some found \<Longrightarrow>
     found = acc @ filter (accepted L) (map (\<lambda>m. strings_TrimRight m ''.,)'') ms)"
proof (induction ms arbitrary: acc)
  case Nil
  then show ?case by simp
next
  case (Cons m ms)
  let ?raw = "strings_TrimRight m ''.,)''"
  from Cons.prems obtain result where r: "ValidateDomain L ?raw = Some result"
    by (auto simp: Let_def split: option.splits)
  show ?case
  proof (cases "Valid result")
    case True
    with Cons.prems r have "ExtractAll_loop L ms (acc @ [?raw]) = Some found"
      by (simp add: Let_def)
    then have "found = (acc @ [?raw])
                 @ filter (accepted L) (map (\<lambda>m. strings_TrimRight m ''.,)'') ms)"
      by (rule Cons.IH)
    moreover have "accepted L ?raw" using r True by (simp add: accepted_def)
    ultimately show ?thesis by simp
  next
    case False
    with Cons.prems r have "ExtractAll_loop L ms acc = Some found"
      by (simp add: Let_def)
    then have "found = acc @ filter (accepted L) (map (\<lambda>m. strings_TrimRight m ''.,)'') ms)"
      by (rule Cons.IH)
    moreover have "\<not> accepted L ?raw" using r False by (simp add: accepted_def)
    ultimately show ?thesis by simp
  qed
qed

lemma ExtractAll_filter:
  "ExtractAll L text = Some found \<Longrightarrow> found = filter (accepted L) (candidates text)"
  unfolding ExtractAll_def candidates_def by (drule ExtractAll_loop_filter) simp

lemma in_order_candidates: "in_order (candidates text) text"
  unfolding candidates_def
  by (rule in_order_map_prefix [OF in_order_FindAllString strings_TrimRight_prefix])

lemma validateDomainName_not_None: "validateDomainName L u \<noteq> None"
  using validateDomainName_returns [of L u] by auto

lemma ValidateDomain_returns:
  assumes "\<forall>receiver. URL_Parse L receiver (''http://'' @ raw) \<noteq> None"
  shows "ValidateDomain L raw \<noteq> None"
proof -
  have "parseCandidate L raw \<noteq> None"
    using assms by (auto simp: parseCandidate_def split: sum.splits)
  then show ?thesis
    using validateDomainName_not_None
    by (auto simp: ValidateDomain_def split: option.splits sum.splits)
qed

lemma ExtractAll_loop_returns:
  assumes "\<forall>receiver raw. URL_Parse L receiver (''http://'' @ raw) \<noteq> None"
  shows "ExtractAll_loop L ms acc \<noteq> None"
proof (induction ms arbitrary: acc)
  case Nil
  then show ?case by simp
next
  case (Cons m ms)
  have "ValidateDomain L (strings_TrimRight m ''.,)'') \<noteq> None"
    using assms by (intro ValidateDomain_returns) blast
  then show ?case using Cons.IH by (auto simp: Let_def split: option.splits)
qed

text \<open>
  C2. Every string that \<^verbatim>\<open>ExtractAll\<close> returns is a substring of the text, the strings
  occur in the text in the order in which they are returned, one after the other, and
  \<^verbatim>\<open>ValidateDomain\<close> judges each of them valid; when no candidate is valid the result is
  empty. \<^verbatim>\<open>ExtractAll\<close> returns for every text, given that the retry of the classifier
  does not dereference a nil receiver.
\<close>

theorem ExtractAll_substrings_in_order:
  "(ExtractAll L text = Some found \<longrightarrow>
      in_order found text
      \<and> (\<forall>s \<in> set found. sublist s text)
      \<and> (\<forall>s \<in> set found. \<exists>result. ValidateDomain L s = Some result \<and> Valid result)
      \<and> ((\<forall>c \<in> set (candidates text). \<not> accepted L c) \<longrightarrow> found = []))
   \<and> ((\<forall>receiver raw. URL_Parse L receiver (''http://'' @ raw) \<noteq> None) \<longrightarrow>
        (\<exists>found. ExtractAll L text = Some found))"
proof (intro conjI impI)
  assume a: "ExtractAll L text = Some found"
  then have f: "found = filter (accepted L) (candidates text)"
    by (rule ExtractAll_filter)
  show io: "in_order found text"
    unfolding f by (rule in_order_filter [OF in_order_candidates])
  show "\<forall>s \<in> set found. sublist s text"
    using io in_order_sublist by blast
  show "\<forall>s \<in> set found. \<exists>result. ValidateDomain L s = Some result \<and> Valid result"
    unfolding f by (auto simp: accepted_def split: option.splits)
  assume "\<forall>c \<in> set (candidates text). \<not> accepted L c"
  then show "found = []"
    unfolding f by (auto simp: filter_empty_conv)
next
  assume "\<forall>receiver raw. URL_Parse L receiver (''http://'' @ raw) \<noteq> None"
  then have "ExtractAll_loop L (FindAllString urlRegex text) [] \<noteq> None"
    by (rule ExtractAll_loop_returns)
  then show "\<exists>found. ExtractAll L text = Some found"
    by (auto simp: ExtractAll_def)
qed

theorem ExtractAll_substrings_in_order_witness:
  "(\<forall>receiver raw. URL_Parse sampleLibrary receiver (''http://'' @ raw) \<noteq> None)
   \<and> ExtractAll sampleLibrary ''Visit https://example.com and check foo.dyndns.org''
       = Some [''https://example.com'', ''foo.dyndns.org'']
   \<and> in_order [''https://example.com'', ''foo.dyndns.org'']
        ''Visit https://example.com and check foo.dyndns.org''
   \<and> sublist ''foo.dyndns.org'' ''Visit https://example.com and check foo.dyndns.org''"
proof -
  have h: "\<forall>receiver raw. URL_Parse sampleLibrary receiver (''http://'' @ raw) \<noteq> None"
    by (simp add: sampleLibrary_def sample_URL_Parse_def)
  have e: "ExtractAll sampleLibrary ''Visit https://example.com and check foo.dyndns.org''
             = Some [''https://example.com'', ''foo.dyndns.org'']"
    by code_simp
  from ExtractAll_substrings_in_order
         [of sampleLibrary "''Visit https://example.com and check foo.dyndns.org''"
             "[''https://example.com'', ''foo.dyndns.org'']"] h e
  show ?thesis by simp
qed

lemma strings_TrimRight_split:
  "\<exists>t. m = strings_TrimRight m cutset @ t \<and> set t \<subseteq> set cutset"
proof -
  let ?P = "\<lambda>c. c \<in> set cutset"
  have "m = rev (dropWhile ?P (rev m)) @ rev (takeWhile ?P (rev m))"
    by (metis rev_append rev_rev_ident takeWhile_dropWhile_id)
  then have "m = strings_TrimRight m cutset @ rev (takeWhile ?P (rev m))"
    by (simp only: strings_TrimRight_def)
  moreover have "set (rev (takeWhile ?P (rev m))) \<subseteq> set cutset"
    by (auto dest: set_takeWhileD)
  ultimately show ?thesis by blast
qed

lemma strings_TrimRight_last:
  "strings_TrimRight m cutset \<noteq> [] \<Longrightarrow> last (strings_TrimRight m cutset) \<notin> set cutset"
proof -
  let ?d = "dropWhile (\<lambda>c. c \<in> set cutset) (rev m)"
  assume "strings_TrimRight m cutset \<noteq> []"
  then have ne: "?d \<noteq> []" by (simp add: strings_TrimRight_def)
  then have "hd ?d \<notin> set cutset" by (rule hd_dropWhile)
  moreover have "last (rev ?d) = hd ?d" using ne by (simp add: last_rev)
  ultimately show ?thesis unfolding strings_TrimRight_def by metis
qed

lemma strings_TrimRight_idem:
  "strings_TrimRight (strings_TrimRight s cutset) cutset = strings_TrimRight s cutset"
  by (simp add: strings_TrimRight_def)

text \<open>
  C8. What \<^verbatim>\<open>ExtractAll\<close> classifies and returns are the matches with their trailing
  characters \<^verbatim>\<open>.\<close>, \<^verbatim>\<open>,\<close> and \<^verbatim>\<open>)\<close> removed: the result is the list of stripped matches
  that the classifier accepts. Stripping removes only such characters, leaves none at
  the end, and is idempotent. The text \<^verbatim>\<open>visit example.com.\<close> gives the candidate
  \<^verbatim>\<open>example.com\<close>.
\<close>

theorem trailing_punctuation_stripped:
  "(ExtractAll L text = Some found \<longrightarrow> found = filter (accepted L) (candidates text))
   \<and> candidates text = map (\<lambda>m. strings_TrimRight m ''.,)'') (FindAllString urlRegex text)
   \<and> (\<exists>t. m = strings_TrimRight m ''.,)'' @ t \<and> set t \<subseteq> {CHR ''.'', CHR '','', CHR '')''})
   \<and> (strings_TrimRight m ''.,)'' \<noteq> [] \<longrightarrow>
        last (strings_TrimRight m ''.,)'') \<notin> {CHR ''.'', CHR '','', CHR '')''})
   \<and> strings_TrimRight (strings_TrimRight m ''.,)'') ''.,)'' = strings_TrimRight m ''.,)''
   \<and> candidates ''visit example.com.'' = [''example.com'']
   \<and> FindAllString urlRegex ''see http://example.com.), next'' = [''http://example.com.),'']
   \<and> candidates ''see http://example.com.), next'' = [''http://example.com'']"
proof -
  have 1: "ExtractAll L text = Some found \<longrightarrow> found = filter (accepted L) (candidates text)"
    using ExtractAll_filter by blast
  have 2: "\<exists>t. m = strings_TrimRight m ''.,)'' @ t \<and> set t \<subseteq> {CHR ''.'', CHR '','', CHR '')''}"
    using strings_TrimRight_split [of m "''.,)''"] by simp
  have 3: "strings_TrimRight m ''.,)'' \<noteq> [] \<longrightarrow>
        last (strings_TrimRight m ''.,)'') \<notin> {CHR ''.'', CHR '','', CHR '')''}"
    using strings_TrimRight_last [of m "''.,)''"] by simp
  have 4: "candidates ''visit example.com.'' = [''example.com'']" by code_simp
  have 5: "FindAllString urlRegex ''see http://example.com.), next''
             = [''http://example.com.),'']" by code_simp
  have 6: "candidates ''see http://example.com.), next'' = [''http://example.com'']"
    by code_simp
  from 1 2 3 4 5 6 show ?thesis
    by (simp only: candidates_def strings_TrimRight_idem simp_thms)
qed

theorem trailing_punctuation_stripped_witness:
  "ExtractAll sampleLibrary ''visit example.com.'' = Some [''example.com'']
   \<and> [''example.com''] = filter (accepted sampleLibrary) (candidates ''visit example.com.'')"
proof -
  have e: "ExtractAll sampleLibrary ''visit example.com.'' = Some [''example.com'']"
    by code_simp
  note t = trailing_punctuation_stripped
             [of sampleLibrary "''visit example.com.''" "[''example.com'']" "''example.com.''"]
  from t [THEN conjunct1, THEN mp, OF e] e show ?thesis by (rule conjI [rotated])
qed

text \<open>
  C5. The pattern has no case-insensitivity flag, so an upper-case scheme is not matched
  as a scheme: of \<^verbatim>\<open>HTTP://example.com\<close> only the bare host \<^verbatim>\<open>example.com\<close> is matched and
  returned, where \<^verbatim>\<open>http://example.com\<close> is matched and returned whole. The classifier
  itself, given the two spellings, returns the same result.
\<close>

theorem uppercase_scheme_not_matched:
  "FindAllString urlRegex ''HTTP://example.com'' = [''example.com'']
   \<and> FindAllString urlRegex ''http://example.com'' = [''http://example.com'']
   \<and> FindAllString urlRegex ''HttpS://github.com'' = [''github.com'']
   \<and> ExtractAll sampleLibrary ''HTTP://example.com'' = Some [''example.com'']
   \<and> ExtractAll sampleLibrary ''http://example.com'' = Some [''http://example.com'']
   \<and> ValidateDomain sampleLibrary ''HTTP://example.com''
        = ValidateDomain sampleLibrary ''http://example.com''"
  by code_simp

subsection \<open>What the pattern matches\<close>

text \<open>Every match the backtracking search reports is a string of the pattern's language.\<close>

lemma star_backtrack_sound:
  assumes f: "\<And>s s'. s' \<in> set (f s) \<Longrightarrow> \<exists>w \<in> A. s = w @ s'"
  shows "s' \<in> set (star_backtrack f n s) \<Longrightarrow> \<exists>w \<in> star A. s = w @ s'"
proof (induction n arbitrary: s)
  case 0
  then have "s = [] @ s'" by simp
  then show ?case using star_empty by blast
next
  case (Suc n)
  from Suc.prems consider
    (iter) m where "m \<in> set (f s)" "length m < length s" "s' \<in> set (star_backtrack f n m)"
    | (stop) "s' = s"
    by (auto split: if_splits)
  then show ?case
  proof cases
    case iter
    from f [OF iter(1)] obtain u where u: "u \<in> A" "s = u @ m" by blast
    from Suc.IH [OF iter(3)] obtain v where v: "v \<in> star A" "m = v @ s'" by blast
    have "u @ v \<in> star A" using u(1) v(1) by (rule star_more)
    moreover have "s = (u @ v) @ s'" using u(2) v(2) by simp
    ultimately show ?thesis by blast
  next
    case stop
    then have "s = [] @ s'" by simp
    then show ?thesis using star_empty by blast
  qed
qed

lemma backtrack_sound:
  "s' \<in> set (backtrack r s) \<Longrightarrow> \<exists>w \<in> lang r. s = w @ s'"
proof (induction r arbitrary: s s')
  case (Cls p)
  then show ?case by (auto split: list.splits if_splits)
next
  case Eps
  then show ?case by simp
next
  case (Seq a b)
  from Seq.prems obtain m where m: "m \<in> set (backtrack a s)" "s' \<in> set (backtrack b m)"
    by auto
  from Seq.IH(1) [OF m(1)] obtain u where u: "u \<in> lang a" "s = u @ m" by blast
  from Seq.IH(2) [OF m(2)] obtain v where v: "v \<in> lang b" "m = v @ s'" by blast
  have "u @ v \<in> lang (Seq a b)" using u(1) v(1) by auto
  moreover have "s = (u @ v) @ s'" using u(2) v(2) by simp
  ultimately show ?case by blast
next
  case (Alt a b)
  then show ?case by fastforce
next
  case (Opt a)
  from Opt.prems have "s' \<in> set (backtrack a s) \<or> s' = s" by auto
  then show ?case
  proof
    assume "s' \<in> set (backtrack a s)"
    from Opt.IH [OF this] show ?thesis by auto
  next
    assume "s' = s"
    then show ?thesis by simp
  qed
next
  case (Star a)
  from Star.prems have "s' \<in> set (star_backtrack (backtrack a) (length s) s)" by simp
  then have "\<exists>w \<in> star (lang a). s = w @ s'"
    by (rule star_backtrack_sound [rotated]) (rule Star.IH)
  then show ?case by simp
next
  case (Plus a)
  from Plus.prems obtain m where m: "m \<in> set (backtrack a s)"
    "s' \<in> set (star_backtrack (backtrack a) (length m) m)" by auto
  from Plus.IH [OF m(1)] obtain u where u: "u \<in> lang a" "s = u @ m" by blast
  from m(2) have "\<exists>w \<in> star (lang a). m = w @ s'"
    by (rule star_backtrack_sound [rotated]) (rule Plus.IH)
  then obtain v where v: "v \<in> star (lang a)" "m = v @ s'" by blast
  have "u @ v \<in> lang (Plus a)" using u(1) v(1) by auto
  moreover have "s = (u @ v) @ s'" using u(2) v(2) by simp
  ultimately show ?case by blast
qed

lemma match_prefix_lang: "match_prefix r s = Some n \<Longrightarrow> take n s \<in> lang r"
proof -
  assume "match_prefix r s = Some n"
  then obtain rest rs where b: "backtrack r s = rest # rs" and n: "n = length s - length rest"
    by (auto simp: match_prefix_def split: list.splits)
  from b have "rest \<in> set (backtrack r s)" by simp
  then obtain w where w: "w \<in> lang r" "s = w @ rest" using backtrack_sound by blast
  then have "take n s = w" using n by simp
  with w(1) show ?thesis by simp
qed

lemma FindAllString_lang: "m \<in> set (FindAllString r s) \<Longrightarrow> m \<in> lang r"
proof (induction r s rule: FindAllString.induct)
  case (1 r)
  then show ?case by simp
next
  case (2 r c cs)
  show ?case
  proof (cases "match_prefix r (c # cs)")
    case None
    with 2 show ?thesis by simp
  next
    case (Some n)
    show ?thesis
    proof (cases "n = 0")
      case True
      with 2 Some show ?thesis by simp
    next
      case False
      with "2.prems" Some have "m = take n (c # cs) \<or> m \<in> set (FindAllString r (drop n (c # cs)))"
        by simp
      then show ?thesis
      proof
        assume "m = take n (c # cs)"
        with Some show ?thesis using match_prefix_lang by blast
      next
        assume "m \<in> set (FindAllString r (drop n (c # cs)))"
        with "2.IH"(3) Some False show ?thesis by simp
      qed
    qed
  qed
qed

text \<open>The shape of the strings the parts of the pattern match.\<close>

lemma lang_chr [simp]: "lang (chr x) = {[x]}"
  by (auto simp: chr_def)

lemma alnum_hyphen_not_special:
  "alnum_hyphen c \<Longrightarrow> c \<noteq> CHR ''.'' \<and> c \<noteq> CHR '':'' \<and> c \<noteq> CHR ''/''"
  by (auto simp: alnum_hyphen_def alnum_def digit_def in_range_def)

lemma alnum_imp_alnum_hyphen: "alnum c \<Longrightarrow> alnum_hyphen c"
  by (simp add: alnum_hyphen_def)

lemma digit_imp_alnum: "digit c \<Longrightarrow> alnum c"
  by (simp add: alnum_def)

lemma star_Cls_all: "w \<in> star {[c] | c. p c} \<Longrightarrow> list_all p w"
  by (induction rule: star.induct) auto

lemma labelRe_label: "w \<in> lang labelRe \<Longrightarrow> label w"
  by (auto simp: labelRe_def label_def alnum_imp_alnum_hyphen dest: star_Cls_all)

lemma digits13_label: "w \<in> lang digits13 \<Longrightarrow> label w"
  by (auto simp: digits13_def label_def digit_imp_alnum alnum_imp_alnum_hyphen)

lemma label_no_dot: "label l \<Longrightarrow> CHR ''.'' \<notin> set l"
  using alnum_hyphen_not_special by (auto simp: label_def list_all_iff)

lemma strings_Split_append:
  "sep \<notin> set l \<Longrightarrow> strings_Split (l @ sep # r) sep = l # strings_Split r sep"
  by (induction l) (auto split: list.splits)

text \<open>A run of dot-and-label pieces after a label.\<close>

lemma dotted_tail:
  assumes "v \<in> star {CHR ''.'' # l | l. label l}"
  shows "v = [] \<or> (\<exists>r. v = CHR ''.'' # r \<and> list_all label (strings_Split r CHR ''.''))"
  using assms
proof (induction rule: star.induct)
  case star_empty
  then show ?case by simp
next
  case (star_more u v)
  from star_more.hyps(1) obtain l where l: "u = CHR ''.'' # l" "label l" by blast
  from star_more.IH show ?case
  proof
    assume "v = []"
    moreover have "strings_Split l CHR ''.'' = [l]"
      using l(2) by (intro strings_Split_single label_no_dot)
    ultimately show ?thesis using l by simp
  next
    assume "\<exists>r. v = CHR ''.'' # r \<and> list_all label (strings_Split r CHR ''.'')"
    then obtain r where r: "v = CHR ''.'' # r" "list_all label (strings_Split r CHR ''.'')"
      by blast
    have "strings_Split (l @ CHR ''.'' # r) CHR ''.'' = l # strings_Split r CHR ''.''"
      using l(2) by (intro strings_Split_append label_no_dot)
    with l r show ?thesis by simp
  qed
qed

lemma dotted_labels:
  assumes "label l" and "u \<in> {CHR ''.'' # l | l. label l}"
    and "v \<in> star {CHR ''.'' # l | l. label l}"
  shows "dotted label (l @ u @ v)"
proof -
  have "u @ v \<in> star {CHR ''.'' # l | l. label l}" using assms(2,3) by (rule star_more)
  from dotted_tail [OF this] assms(2) obtain r
    where r: "u @ v = CHR ''.'' # r" "list_all label (strings_Split r CHR ''.'')" by auto
  have "strings_Split (l @ CHR ''.'' # r) CHR ''.'' = l # strings_Split r CHR ''.''"
    using assms(1) by (intro strings_Split_append label_no_dot)
  moreover have "1 \<le> length (strings_Split r CHR ''.'')"
    using strings_Split_nonempty [of r "CHR ''.''"] by (cases "strings_Split r CHR ''.''") auto
  ultimately show ?thesis using r assms(1) by (simp add: dotted_def)
qed

lemma star_mono: "A \<subseteq> B \<Longrightarrow> w \<in> star A \<Longrightarrow> w \<in> star B"
proof -
  assume sub: "A \<subseteq> B" and "w \<in> star A"
  from this(2) show ?thesis
    by (induction rule: star.induct) (use sub in \<open>auto intro: star.intros\<close>)
qed

lemma domainRe_dotted: "h \<in> lang domainRe \<Longrightarrow> dotted label h"
proof -
  let ?D = "{CHR ''.'' # l | l. label l}"
  assume "h \<in> lang domainRe"
  then obtain l u v where h: "h = l @ u @ v" and l: "l \<in> lang labelRe"
    and u: "u \<in> lang (Seq (chr CHR ''.'') labelRe)"
    and v: "v \<in> star (lang (Seq (chr CHR ''.'') labelRe))"
    by (auto simp: domainRe_def)
  have sub: "lang (Seq (chr CHR ''.'') labelRe) \<subseteq> ?D"
    using labelRe_label by auto
  have "dotted label (l @ u @ v)"
  proof (rule dotted_labels)
    show "label l" using l by (rule labelRe_label)
    show "u \<in> ?D" using u sub by blast
    show "v \<in> star ?D" using sub v by (rule star_mono)
  qed
  with h show ?thesis by simp
qed

lemma ipv4Re_dotted: "h \<in> lang ipv4Re \<Longrightarrow> dotted label h"
proof -
  let ?D = "{CHR ''.'' # l | l. label l}"
  assume "h \<in> lang ipv4Re"
  then obtain a b c d where h: "h = a @ (CHR ''.'' # b) @ (CHR ''.'' # c) @ (CHR ''.'' # d)"
    and abcd: "a \<in> lang digits13" "b \<in> lang digits13" "c \<in> lang digits13" "d \<in> lang digits13"
    by (auto simp: ipv4Re_def)
  have la: "label a" and lb: "label b" and lc: "label c" and ld: "label d"
    using abcd by (auto intro: digits13_label)
  have "CHR ''.'' # d \<in> star ?D"
    using star_more [of "CHR ''.'' # d" ?D "[]"] ld star_empty by auto
  then have "(CHR ''.'' # c) @ (CHR ''.'' # d) \<in> star ?D"
    using lc by (intro star_more) auto
  then have "dotted label (a @ (CHR ''.'' # b) @ ((CHR ''.'' # c) @ (CHR ''.'' # d)))"
    using la lb by (intro dotted_labels) auto
  with h show ?thesis by simp
qed

lemma set_strings_Split:
  "c \<in> set s \<Longrightarrow> c = sep \<or> (\<exists>p \<in> set (strings_Split s sep). c \<in> set p)"
proof (induction s)
  case Nil
  then show ?case by simp
next
  case (Cons a s)
  obtain p ps where sp: "strings_Split s sep = p # ps"
    using strings_Split_nonempty [of s sep] by (cases "strings_Split s sep") auto
  show ?case
  proof (cases "c = a")
    case True
    then show ?thesis using sp by auto
  next
    case False
    with Cons.prems have "c \<in> set s" by simp
    from Cons.IH [OF this] show ?thesis using sp by auto
  qed
qed

lemma dotted_label_chars:
  assumes "dotted label h" and "c \<in> set h"
  shows "c \<noteq> CHR '':'' \<and> c \<noteq> CHR ''/''"
proof -
  from set_strings_Split [OF assms(2), of "CHR ''.''"]
  show ?thesis
  proof
    assume "c = CHR ''.''"
    then show ?thesis by simp
  next
    assume "\<exists>p \<in> set (strings_Split h CHR ''.''). c \<in> set p"
    then obtain p where p: "p \<in> set (strings_Split h CHR ''.'')" "c \<in> set p" by blast
    from assms(1) p(1) have "label p" by (auto simp: dotted_def Let_def list_all_iff)
    with p(2) have "alnum_hyphen c" by (auto simp: label_def list_all_iff)
    then show ?thesis using alnum_hyphen_not_special by blast
  qed
qed

lemma tailRe_start:
  "t \<in> lang tailRe \<Longrightarrow> t = [] \<or> hd t = CHR '':'' \<or> hd t = CHR ''/''"
  by (auto simp: tailRe_def)

lemma host_part_append:
  assumes "\<forall>c \<in> set h. c \<noteq> CHR '':'' \<and> c \<noteq> CHR ''/''"
    and "t = [] \<or> hd t = CHR '':'' \<or> hd t = CHR ''/''"
  shows "host_part (h @ t) = h"
proof (cases t)
  case Nil
  with assms(1) show ?thesis by (simp add: host_part_def)
next
  case (Cons a t')
  with assms(2) have "a = CHR '':'' \<or> a = CHR ''/''" by simp
  with assms(1) Cons show ?thesis by (auto simp: host_part_def takeWhile_append2)
qed

lemma schemeRe_prefix:
  "w \<in> lang schemeRe \<Longrightarrow> prefix ''http://'' w \<or> prefix ''https://'' w"
  by (auto simp: schemeRe_def)

lemma ipv6Re_bracket: "w \<in> lang ipv6Re \<Longrightarrow> hd (w @ t) = CHR ''[''"
  by (auto simp: ipv6Re_def)

lemma strings_Split_two_dot:
  "2 \<le> length (strings_Split s sep) \<Longrightarrow> sep \<in> set s"
  using strings_Split_single [of sep s] by fastforce

text \<open>
  C6, amended. A candidate that is not scheme-prefixed and does not start with the
  bracket of an IPv6 literal has, before its port or path, a dot-separated sequence of
  two or more labels; each label is non-empty, starts with an ASCII letter or digit and
  consists of ASCII letters, digits and hyphens. So the host has a dot: a token without
  one is never such a candidate. A label may end with a hyphen, and bytes outside ASCII
  do not occur in it.
\<close>

theorem bare_host_labels:
  assumes "m \<in> set (FindAllString urlRegex text)"
    and "\<not> prefix ''http://'' m" and "\<not> prefix ''https://'' m"
    and "hd m \<noteq> CHR ''[''"
  shows "dotted label (host_part m) \<and> CHR ''.'' \<in> set (host_part m)"
proof -
  from assms(1) have "m \<in> lang urlRegex" by (rule FindAllString_lang)
  then have "m \<in> lang schemeRe \<or> m \<in> lang bareRe" by (simp add: urlRegex_def)
  with assms(2,3) have "m \<in> lang bareRe" using schemeRe_prefix by blast
  then obtain h t where m: "m = h @ t" and t: "t \<in> lang tailRe"
    and h: "h \<in> lang ipv6Re \<or> h \<in> lang ipv4Re \<or> h \<in> lang domainRe"
    by (auto simp: bareRe_def)
  from h assms(4) m have "h \<in> lang ipv4Re \<or> h \<in> lang domainRe"
    using ipv6Re_bracket by blast
  then have d: "dotted label h" using ipv4Re_dotted domainRe_dotted by blast
  have "host_part (h @ t) = h"
    using dotted_label_chars [OF d] tailRe_start [OF t] by (intro host_part_append) auto
  with m have hp: "host_part m = h" by simp
  from d have "CHR ''.'' \<in> set h"
    by (intro strings_Split_two_dot) (simp add: dotted_def Let_def)
  with d hp show ?thesis by simp
qed

theorem bare_host_labels_witness:
  "''a-.b/c'' \<in> set (FindAllString urlRegex ''see a-.b/c'')
   \<and> host_part ''a-.b/c'' = ''a-.b''
   \<and> dotted label ''a-.b''"
proof -
  have a: "''a-.b/c'' \<in> set (FindAllString urlRegex ''see a-.b/c'')" by code_simp
  have b: "\<not> prefix ''http://'' ''a-.b/c''" by simp
  have c: "\<not> prefix ''https://'' ''a-.b/c''" by simp
  have d: "hd ''a-.b/c'' \<noteq> CHR ''[''" by simp
  have e: "host_part ''a-.b/c'' = ''a-.b''" by code_simp
  from bare_host_labels [OF a b c d] a e show ?thesis by simp
qed

text \<open>
  C6, as stated, does not hold: \<^verbatim>\<open>a-.b\<close> is matched as a bare host, and its first label
  ends with a hyphen.
\<close>

theorem label_ending_in_hyphen_counterexample:
  "FindAllString urlRegex ''a-.b'' = [''a-.b'']
   \<and> \<not> prefix ''http://'' ''a-.b'' \<and> \<not> prefix ''https://'' ''a-.b''
   \<and> host_part ''a-.b'' = ''a-.b''
   \<and> strings_Split ''a-.b'' CHR ''.'' = [''a-'', ''b'']
   \<and> \<not> spec_label ''a-''
   \<and> \<not> dotted spec_label (host_part ''a-.b'')"
  by code_simp

text \<open>The pattern matches no empty string, so every match consumes a character.\<close>

lemma urlRegex_no_empty_match: "match_prefix urlRegex s \<noteq> Some 0"
proof
  assume "match_prefix urlRegex s = Some 0"
  then have "take 0 s \<in> lang urlRegex" by (rule match_prefix_lang)
  then have "[] \<in> lang schemeRe \<or> [] \<in> lang bareRe" by (simp add: urlRegex_def)
  then show False
  proof
    assume "[] \<in> lang schemeRe"
    from schemeRe_prefix [OF this] show False by simp
  next
    assume "[] \<in> lang bareRe"
    then have "[] \<in> lang ipv6Re \<or> [] \<in> lang ipv4Re \<or> [] \<in> lang domainRe"
      by (auto simp: bareRe_def)
    then show False
      by (auto simp: ipv6Re_def ipv4Re_def domainRe_def labelRe_def digits13_def)
  qed
qed

end
